theory Spec2Isabelle
  imports Main "HOL-Library.Sublist"
begin

section \<open>Python values used by \<open>secondmind/app.py\<close>\<close>

text \<open>
  A Python \<open>str\<close> is modelled as a \<open>string\<close>, a list of characters with code points
  below 256. Exceptions are values of the type \<open>error\<close>; a function that can raise returns
  \<open>error + 'a\<close>, with \<open>Inl\<close> for the exception.
\<close>

datatype error = ValueError | IndexError | OverflowError

text \<open>
  \<open>str.isspace\<close> on one character: the code points below 256 that Python 3 treats as
  whitespace in \<open>str.split()\<close> and \<open>str.strip()\<close> (tab, line feed, vertical tab, form
  feed, carriage return, the four separators 28 to 31, space, NEL and no-break space).
\<close>

definition isspace :: "char \<Rightarrow> bool" where
  "isspace c = ((of_char c :: nat) \<in> {9, 10, 11, 12, 13, 28, 29, 30, 31, 32, 133, 160})"

text \<open>\<open>s.strip()\<close>: whitespace removed at both ends.\<close>

definition strip :: "string \<Rightarrow> string" where
  "strip s = rev (dropWhile isspace (rev (dropWhile isspace s)))"

text \<open>\<open>s.rstrip(chars)\<close>: every trailing character that occurs in \<open>chars\<close> is removed.\<close>

definition rstrip_chars :: "string \<Rightarrow> string \<Rightarrow> string" where
  "rstrip_chars s chars = rev (dropWhile (\<lambda>c. c \<in> set chars) (rev s))"

text \<open>\<open>s.startswith(pre)\<close>.\<close>

definition startswith :: "string \<Rightarrow> string \<Rightarrow> bool" where
  "startswith s pre = (take (length pre) s = pre)"

text \<open>\<open>sub in s\<close>: some suffix of \<open>s\<close> starts with \<open>sub\<close>.\<close>

fun contains :: "string \<Rightarrow> string \<Rightarrow> bool" where
  "contains sub [] = (sub = [])"
| "contains sub (c # cs) = (startswith (c # cs) sub \<or> contains sub cs)"

text \<open>
  \<open>s.split()\<close> without arguments: the maximal runs of characters that are not whitespace.
  \<open>cur\<close> is the token being read.
\<close>

fun split_ws_aux :: "string \<Rightarrow> string \<Rightarrow> string list" where
  "split_ws_aux cur [] = (if cur = [] then [] else [cur])"
| "split_ws_aux cur (c # cs) =
     (if isspace c then (if cur = [] then split_ws_aux [] cs else cur # split_ws_aux [] cs)
      else split_ws_aux (cur @ [c]) cs)"

definition split_ws :: "string \<Rightarrow> string list" where
  "split_ws s = split_ws_aux [] s"

text \<open>\<open>sep.join(xs)\<close>.\<close>

fun join :: "string \<Rightarrow> string list \<Rightarrow> string" where
  "join sep [] = []"
| "join sep [x] = x"
| "join sep (x # y # ys) = x @ sep @ join sep (y # ys)"

text \<open>
  \<open>s.rsplit(sep, 1)\<close>: the search for \<open>sep\<close> prefers a match further right, so the
  recursion looks into the rest of the string before it tries the current position.
  An empty separator raises \<open>ValueError\<close>; a string without the separator is returned
  whole, as a list of one element.
\<close>

fun rfind_split :: "string \<Rightarrow> string \<Rightarrow> (string \<times> string) option" where
  "rfind_split sep [] = None"
| "rfind_split sep (c # cs) =
     (case rfind_split sep cs of
        Some (a, b) \<Rightarrow> Some (c # a, b)
      | None \<Rightarrow> if startswith (c # cs) sep then Some ([], drop (length sep) (c # cs)) else None)"

definition rsplit1 :: "string \<Rightarrow> string \<Rightarrow> error + string list" where
  "rsplit1 s sep =
     (if sep = [] then Inl ValueError
      else case rfind_split sep s of None \<Rightarrow> Inr [s] | Some (a, b) \<Rightarrow> Inr [a, b])"

text \<open>The assignment \<open>a, b = xs\<close> raises \<open>ValueError\<close> unless \<open>xs\<close> has two elements.\<close>

definition unpack2 :: "'a list \<Rightarrow> error + ('a \<times> 'a)" where
  "unpack2 xs = (case xs of [a, b] \<Rightarrow> Inr (a, b) | _ \<Rightarrow> Inl ValueError)"

section \<open>The note codec\<close>

text \<open>
  The dictionary \<open>{"note": ..., "tags": ..., "due_date": ...}\<close> that \<open>parse_note\<close> returns
  and that the JSON export and import use.
\<close>

record note_dict =
  "note" :: string
  tags :: "string list"
  due_date :: "string option"

definition parse_note :: "string \<Rightarrow> error + note_dict" where
  "parse_note raw_note =
     (case (if contains ''[due:'' raw_note
            then (case rsplit1 raw_note ''[due:'' of
                    Inl e \<Rightarrow> Inl e
                  | Inr parts \<Rightarrow>
                      (case unpack2 parts of
                         Inl e \<Rightarrow> Inl e
                       | Inr (note_part, due_chunk) \<Rightarrow>
                           Inr (note_part, Some (strip (rstrip_chars due_chunk '']'')))))
            else Inr (raw_note, None)) of
        Inl e \<Rightarrow> Inl e
      | Inr (note_part, due) \<Rightarrow>
          (let tag_tokens = filter (\<lambda>word. startswith word ''#'') (split_ws (strip note_part));
               clean_note = join '' ''
                 (filter (\<lambda>word. \<not> startswith word ''#'') (split_ws (strip note_part)))
           in Inr \<lparr>note = strip clean_note, tags = tag_tokens, due_date = due\<rparr>))"

text \<open>
  \<open>s.split(sep)\<close> with a separator: the string is cut at every occurrence of \<open>sep\<close>,
  found from the left; \<open>cur\<close> is the piece being read. An empty separator raises
  \<open>ValueError\<close>.
\<close>

fun split_sep_aux :: "string \<Rightarrow> string \<Rightarrow> string \<Rightarrow> string list" where
  "split_sep_aux sep cur [] = [cur]"
| "split_sep_aux sep cur (c # cs) =
     (if sep \<noteq> [] \<and> startswith (c # cs) sep
      then cur # split_sep_aux sep [] (drop (length sep) (c # cs))
      else split_sep_aux sep (cur @ [c]) cs)"

definition split_sep :: "string \<Rightarrow> string \<Rightarrow> error + string list" where
  "split_sep s sep = (if sep = [] then Inl ValueError else Inr (split_sep_aux sep [] s))"

text \<open>\<open>xs[i]\<close> for an index that is not negative.\<close>

definition index :: "'a list \<Rightarrow> nat \<Rightarrow> error + 'a" where
  "index xs i = (if i < length xs then Inr (xs ! i) else Inl IndexError)"

text \<open>Sequencing of two steps, the second of which runs only if the first did not raise.\<close>

fun and_then :: "error + 'a \<Rightarrow> ('a \<Rightarrow> error + 'b) \<Rightarrow> error + 'b" where
  "and_then (Inl e) f = Inl e"
| "and_then (Inr x) f = f x"

definition build_note_from_json :: "note_dict \<Rightarrow> string" where
  "build_note_from_json data =
     (let note_text = note data;
          tags_text = (if tags data \<noteq> [] then join '','' (tags data) else []);
          due = (case due_date data of
                   None \<Rightarrow> []
                 | Some d \<Rightarrow> if d \<noteq> [] then ''[due:'' @ d @ '']'' else [])
      in strip (note_text @ '' '' @ tags_text @ '' '' @ due))"

section \<open>The notes table\<close>

text \<open>
  The table \<open>notes\<close> of the SQLite database: \<open>id\<close> is the autoincremented key, \<open>user\<close> and
  \<open>note\<close> are \<open>TEXT NOT NULL\<close>, \<open>tags\<close> and \<open>due_date\<close> are \<open>TEXT\<close> columns in which
  \<open>None\<close> is SQL \<open>NULL\<close>. \<open>db_seq\<close> is the largest key handed out so far.
\<close>

record row =
  row_id :: nat
  row_user :: string
  row_note :: string
  row_tags :: "string option"
  row_due_date :: "string option"

record db =
  db_rows :: "row list"
  db_seq :: nat

definition empty_db :: db where
  "empty_db = \<lparr>db_rows = [], db_seq = 0\<rparr>"

text \<open>
  SQL comparisons are three-valued: \<open>None\<close> is the unknown result. \<open>a = b\<close> is unknown as
  soon as one side is \<open>NULL\<close>; \<open>a IS b\<close> is never unknown and holds for two \<open>NULL\<close>s. A
  \<open>WHERE\<close> clause keeps a row only if its condition is true.
\<close>

definition sql_eq :: "string option \<Rightarrow> string option \<Rightarrow> bool option" where
  "sql_eq a b = (case a of None \<Rightarrow> None | Some x \<Rightarrow> (case b of None \<Rightarrow> None | Some y \<Rightarrow> Some (x = y)))"

definition sql_is :: "string option \<Rightarrow> string option \<Rightarrow> bool option" where
  "sql_is a b = Some (a = b)"

fun sql_and :: "bool option \<Rightarrow> bool option \<Rightarrow> bool option" where
  "sql_and (Some False) q = Some False"
| "sql_and p (Some False) = Some False"
| "sql_and (Some True) (Some True) = Some True"
| "sql_and p q = None"

definition sql_where :: "bool option \<Rightarrow> bool" where
  "sql_where v = (v = Some True)"

text \<open>
  \<open>SELECT * FROM notes WHERE user = ? AND note = ? AND tags = ? AND due_date IS?\<close>:
  SQLite reads \<open>IS?\<close> as the operator \<open>IS\<close> followed by a parameter.
\<close>

definition select_duplicate :: "string \<Rightarrow> string \<Rightarrow> string option \<Rightarrow> string option \<Rightarrow> db \<Rightarrow> row list" where
  "select_duplicate user note_text tag_string due db =
     filter (\<lambda>r. sql_where
        (sql_and (sql_and (sql_and (sql_eq (Some (row_user r)) (Some user))
                                   (sql_eq (Some (row_note r)) (Some note_text)))
                          (sql_eq (row_tags r) tag_string))
                 (sql_is (row_due_date r) due)))
       (db_rows db)"

text \<open>\<open>cursor.fetchone()\<close>: the first row of the result, or \<open>None\<close>.\<close>

definition fetchone :: "'a list \<Rightarrow> 'a option" where
  "fetchone rs = (case rs of [] \<Rightarrow> None | r # _ \<Rightarrow> Some r)"

text \<open>\<open>INSERT INTO notes (user, note, tags, due_date) VALUES (?, ?, ?, ?)\<close>.\<close>

definition insert_note :: "string \<Rightarrow> string \<Rightarrow> string option \<Rightarrow> string option \<Rightarrow> db \<Rightarrow> db" where
  "insert_note user note_text tag_string due db =
     \<lparr>db_rows = db_rows db @
        [\<lparr>row_id = Suc (db_seq db), row_user = user, row_note = note_text,
          row_tags = tag_string, row_due_date = due\<rparr>],
      db_seq = Suc (db_seq db)\<rparr>"

text \<open>
  Leaving the block \<open>with get_connection() as conn:\<close> without an exception, also by a
  \<open>return\<close>, calls \<open>conn.commit()\<close>. On a connection that has been closed this call raises
  \<open>sqlite3.ProgrammingError\<close>, and the exception takes the place of the value returned.
\<close>

datatype sqlite_error = ProgrammingError

definition leave_with :: "bool \<Rightarrow> 'a \<Rightarrow> sqlite_error + 'a" where
  "leave_with closed result = (if closed then Inl ProgrammingError else Inr result)"

text \<open>
  The result is the outcome of the call, a \<open>bool\<close> or an exception, and the table after the
  call. \<open>closed\<close> says whether \<open>conn.close()\<close> has been called; the row inserted is committed
  by \<open>conn.commit()\<close> before that.
\<close>

definition add_note_to_db :: "string \<Rightarrow> string \<Rightarrow> string list \<Rightarrow> string option \<Rightarrow> db \<Rightarrow> (sqlite_error + bool) \<times> db" where
  "add_note_to_db user note_text tag_list due db =
     (let tag_string = (if tag_list \<noteq> [] then Some (join '','' tag_list) else None);
          duplicate = fetchone (select_duplicate user note_text tag_string due db)
      in if duplicate \<noteq> None
         then (let closed = True in (leave_with closed False, db))
         else (let db' = insert_note user note_text tag_string due db;
                   closed = True
               in (leave_with closed True, db')))"

section \<open>Import and export\<close>

text \<open>
  The body of the loop of \<open>import_txt_to_db\<close> on one line of the file: \<open>None\<close> for a line
  that is skipped, otherwise the body, the tags and the due date that are passed to
  \<open>add_note_to_db\<close>. The \<open>except\<close> branch leaves \<open>due_date\<close> at \<open>None\<close>.
\<close>

definition import_txt_line :: "string \<Rightarrow> (string \<times> string list \<times> string option) option" where
  "import_txt_line raw_line =
     (let line = strip raw_line
      in if line = [] then None
         else
           (let tag_list = filter (\<lambda>word. startswith word ''#'') (split_ws line);
                note_part = join '' ''
                  (filter (\<lambda>w. \<not> startswith w ''#'' \<and> \<not> startswith w ''[due:'') (split_ws line));
                due = (if contains ''[due:'' line
                       then (case and_then (split_sep line ''[due:'')
                                    (\<lambda>xs. and_then (index xs 1)
                                    (\<lambda>x. and_then (split_sep x '']'')
                                    (\<lambda>ys. index ys 0))) of
                               Inl e \<Rightarrow> None
                             | Inr d \<Rightarrow> Some d)
                       else None)
            in Some (strip note_part, tag_list, due)))"

text \<open>
  The loop over the lines of the file, with the counter \<open>imported\<close>; the result is the
  final value of the counter, or the exception that left the loop, and the table.
\<close>

fun import_txt_to_db :: "string \<Rightarrow> string list \<Rightarrow> db \<Rightarrow> nat \<Rightarrow> (sqlite_error + nat) \<times> db" where
  "import_txt_to_db user [] db imported = (Inr imported, db)"
| "import_txt_to_db user (raw_line # file) db imported =
     (case import_txt_line raw_line of
        None \<Rightarrow> import_txt_to_db user file db imported
      | Some (note_text, tag_list, due) \<Rightarrow>
          (case add_note_to_db user note_text tag_list due db of
             (Inl e, db') \<Rightarrow> (Inl e, db')
           | (Inr added, db') \<Rightarrow> import_txt_to_db user file db' (Suc imported)))"

text \<open>
  \<open>export_notes_to_json\<close>: the rows of the user, each turned into a dictionary and appended
  to \<open>data\<close>. The result is the list that is written to the file.
\<close>

definition export_entry :: "row \<Rightarrow> error + note_dict" where
  "export_entry r =
     and_then (case row_tags r of
                 None \<Rightarrow> Inr []
               | Some t \<Rightarrow> if t \<noteq> [] then split_sep t '','' else Inr [])
       (\<lambda>tag_list. Inr \<lparr>note = row_note r, tags = tag_list, due_date = row_due_date r\<rparr>)"

fun export_loop :: "row list \<Rightarrow> note_dict list \<Rightarrow> error + note_dict list" where
  "export_loop [] data = Inr data"
| "export_loop (r # notes) data =
     and_then (export_entry r) (\<lambda>d. export_loop notes (data @ [d]))"

definition export_notes_to_json :: "string \<Rightarrow> db \<Rightarrow> error + note_dict list" where
  "export_notes_to_json user db = export_loop (filter (\<lambda>r. row_user r = user) (db_rows db)) []"

section \<open>Dates\<close>

text \<open>
  A \<open>datetime.date\<close> is represented by its proleptic Gregorian ordinal (\<open>date.toordinal()\<close>,
  day 1 is 0001-01-01), an integer computed as the \<open>datetime\<close> module does. Dates compare as their
  ordinals do. The constructor raises \<open>ValueError\<close> outside the years 1 to 9999 and for a
  day that the month does not have; adding days raises \<open>OverflowError\<close> beyond 9999-12-31.
\<close>

type_synonym date = int

definition is_leap :: "int \<Rightarrow> bool" where
  "is_leap year = (year mod 4 = 0 \<and> (year mod 100 \<noteq> 0 \<or> year mod 400 = 0))"

definition days_in_month :: "int \<Rightarrow> int \<Rightarrow> int" where
  "days_in_month year month =
     (if month = 2 then (if is_leap year then 29 else 28)
      else if month \<in> {4, 6, 9, 11} then 30 else 31)"

definition days_before_year :: "int \<Rightarrow> int" where
  "days_before_year year =
     (let y = year - 1 in y * 365 + y div 4 - y div 100 + y div 400)"

definition days_before_month :: "int \<Rightarrow> int \<Rightarrow> int" where
  "days_before_month year month =
     [0, 0, 31, 59, 90, 120, 151, 181, 212, 243, 273, 304, 334] ! nat month +
     (if month > 2 \<and> is_leap year then 1 else 0)"

definition ymd2ord :: "int \<Rightarrow> int \<Rightarrow> int \<Rightarrow> int" where
  "ymd2ord year month day = days_before_year year + days_before_month year month + day"

definition MAXORDINAL :: int where
  "MAXORDINAL = 3652059"

definition make_date :: "int \<Rightarrow> int \<Rightarrow> int \<Rightarrow> error + date" where
  "make_date year month day =
     (if 1 \<le> year \<and> year \<le> 9999 \<and> 1 \<le> month \<and> month \<le> 12 \<and>
         1 \<le> day \<and> day \<le> days_in_month year month
      then Inr (ymd2ord year month day) else Inl ValueError)"

definition add_days :: "date \<Rightarrow> int \<Rightarrow> error + date" where
  "add_days d n = (if 0 < d + n \<and> d + n \<le> MAXORDINAL then Inr (d + n) else Inl OverflowError)"

text \<open>
  \<open>datetime.strptime(s, "%Y-%m-%d").date()\<close>. The format is the regular expression
  \<open>(\d\d\d\d)-(1[0-2]|0[1-9]|[1-9])-(3[01]|[12]\d|0[1-9]|[1-9]| [1-9])\<close>, matched at the
  start of \<open>s\<close>. Each group is modelled by the list of its matches, in the order in which the
  alternatives are tried, each with the text that follows it; the first complete match is the
  one the search returns. \<open>ValueError\<close> is raised if there is no match, if text remains after
  the match, or if the numbers are not a date.
\<close>

definition isdigit :: "char \<Rightarrow> bool" where
  "isdigit c = (48 \<le> (of_char c :: nat) \<and> (of_char c :: nat) \<le> 57)"

definition digit :: "char \<Rightarrow> int" where
  "digit c = of_char c - 48"

definition in_range :: "char \<Rightarrow> int \<Rightarrow> int \<Rightarrow> bool" where
  "in_range c lo hi = (isdigit c \<and> lo \<le> digit c \<and> digit c \<le> hi)"

fun match_Y :: "string \<Rightarrow> (int \<times> string) list" where
  "match_Y (a # b # c # d # rest) =
     (if isdigit a \<and> isdigit b \<and> isdigit c \<and> isdigit d
      then [(1000 * digit a + 100 * digit b + 10 * digit c + digit d, rest)] else [])"
| "match_Y s = []"

fun two_chars :: "(char \<Rightarrow> bool) \<Rightarrow> (char \<Rightarrow> bool) \<Rightarrow> (char \<Rightarrow> char \<Rightarrow> int) \<Rightarrow> string \<Rightarrow> (int \<times> string) list" where
  "two_chars p q v (a # b # rest) = (if p a \<and> q b then [(v a b, rest)] else [])"
| "two_chars p q v s = []"

fun one_char :: "(char \<Rightarrow> bool) \<Rightarrow> string \<Rightarrow> (int \<times> string) list" where
  "one_char p (a # rest) = (if p a then [(digit a, rest)] else [])"
| "one_char p [] = []"

definition match_m :: "string \<Rightarrow> (int \<times> string) list" where
  "match_m s =
     two_chars (\<lambda>a. a = CHR ''1'') (\<lambda>b. in_range b 0 2) (\<lambda>a b. 10 + digit b) s @
     two_chars (\<lambda>a. a = CHR ''0'') (\<lambda>b. in_range b 1 9) (\<lambda>a b. digit b) s @
     one_char (\<lambda>a. in_range a 1 9) s"

definition match_d :: "string \<Rightarrow> (int \<times> string) list" where
  "match_d s =
     two_chars (\<lambda>a. a = CHR ''3'') (\<lambda>b. in_range b 0 1) (\<lambda>a b. 30 + digit b) s @
     two_chars (\<lambda>a. in_range a 1 2) isdigit (\<lambda>a b. 10 * digit a + digit b) s @
     two_chars (\<lambda>a. a = CHR ''0'') (\<lambda>b. in_range b 1 9) (\<lambda>a b. digit b) s @
     one_char (\<lambda>a. in_range a 1 9) s @
     two_chars (\<lambda>a. a = CHR '' '') (\<lambda>b. in_range b 1 9) (\<lambda>a b. digit b) s"

text \<open>The literal \<open>-\<close> of the format, after each match of the group before it.\<close>

definition dash :: "('a \<times> string) list \<Rightarrow> ('a \<times> string) list" where
  "dash ms = concat (map (\<lambda>(v, s). case s of [] \<Rightarrow> [] | c # rest \<Rightarrow> if c = CHR ''-'' then [(v, rest)] else []) ms)"

definition match_ymd :: "string \<Rightarrow> (int \<times> int \<times> int \<times> string) list" where
  "match_ymd s =
     concat (map (\<lambda>(y, s1).
       concat (map (\<lambda>(m, s2).
         map (\<lambda>(d, s3). (y, m, d, s3)) (match_d s2))
       (dash (match_m s1))))
     (dash (match_Y s)))"

definition strptime_ymd :: "string \<Rightarrow> error + date" where
  "strptime_ymd s =
     (case match_ymd s of
        [] \<Rightarrow> Inl ValueError
      | (y, m, d, rest) # _ \<Rightarrow> if rest \<noteq> [] then Inl ValueError else make_date y m d)"

section \<open>Notes that are due\<close>

text \<open>
  A row of \<open>SELECT id, note, tags, due_date FROM notes WHERE user = ?\<close>.
\<close>

type_synonym result_row = "nat \<times> string \<times> string option \<times> string option"

definition select_notes :: "string \<Rightarrow> db \<Rightarrow> result_row list" where
  "select_notes user db =
     map (\<lambda>r. (row_id r, row_note r, row_tags r, row_due_date r))
       (filter (\<lambda>r. row_user r = user) (db_rows db))"

text \<open>
  The loop of \<open>view_due_notes\<close> over \<open>results\<close>, with the list \<open>filtered\<close> built so far.
  \<open>except ValueError\<close> skips the row; any other exception would leave the loop.
\<close>

fun due_loop :: "string \<Rightarrow> date \<Rightarrow> date \<Rightarrow> result_row list \<Rightarrow> result_row list \<Rightarrow> error + result_row list" where
  "due_loop mode today week_later [] filtered = Inr filtered"
| "due_loop mode today week_later ((idn, note_text, tags_text, due) # results) filtered =
     (case due of
        None \<Rightarrow> due_loop mode today week_later results filtered
      | Some s \<Rightarrow>
          if s = [] then due_loop mode today week_later results filtered
          else
            (case strptime_ymd s of
               Inl ValueError \<Rightarrow> due_loop mode today week_later results filtered
             | Inl e \<Rightarrow> Inl e
             | Inr due_day \<Rightarrow>
                 if mode = ''today'' \<and> due_day = today
                 then due_loop mode today week_later results
                        (filtered @ [(idn, note_text, tags_text, due)])
                 else if mode = ''overdue'' \<and> due_day < today
                 then due_loop mode today week_later results
                        (filtered @ [(idn, note_text, tags_text, due)])
                 else if mode = ''week'' \<and> today \<le> due_day \<and> due_day \<le> week_later
                 then due_loop mode today week_later results
                        (filtered @ [(idn, note_text, tags_text, due)])
                 else due_loop mode today week_later results filtered))"

text \<open>
  The classification of \<open>view_due_notes\<close>: from the rows read and the date of today
  (\<open>datetime.today().date()\<close>, a parameter here) to the list \<open>filtered\<close>.
\<close>

definition filter_due_notes :: "result_row list \<Rightarrow> string \<Rightarrow> date \<Rightarrow> error + result_row list" where
  "filter_due_notes results mode today =
     and_then (add_days today 7) (\<lambda>week_later. due_loop mode today week_later results [])"

text \<open>
  What \<open>view_due_notes\<close> shows: the table of the rows selected, or the message that no
  notes were found for the mode.
\<close>

datatype display = Rendered "result_row list" | No_notes_found string

definition view_due_notes :: "db \<Rightarrow> string \<Rightarrow> string \<Rightarrow> date \<Rightarrow> error + display" where
  "view_due_notes db user mode today =
     and_then (filter_due_notes (select_notes user db) mode today)
       (\<lambda>filtered. if filtered \<noteq> [] then Inr (Rendered filtered) else Inr (No_notes_found mode))"

section \<open>Definitions that follow the words of the specification\<close>

text \<open>
  The specification strips one trailing \<open>]\<close> from the text after the due marker, if there
  is one. This function follows those words; \<open>parse_note\<close> uses \<open>rstrip_chars\<close>.
\<close>

definition strip_one_bracket :: "string \<Rightarrow> string" where
  "strip_one_bracket s = (if s \<noteq> [] \<and> last s = CHR '']'' then butlast s else s)"

text \<open>
  A date string is strictly of the form \<open>YYYY-MM-DD\<close>, in the words of the specification,
  if it has four digits, a dash, two digits, a dash and two digits, and these numbers are a
  calendar date. \<open>strptime_ymd\<close> accepts more strings than these.
\<close>

fun strict_ymd :: "string \<Rightarrow> bool" where
  "strict_ymd [y1, y2, y3, y4, dash1, m1, m2, dash2, d1, d2] =
     (isdigit y1 \<and> isdigit y2 \<and> isdigit y3 \<and> isdigit y4 \<and> dash1 = CHR ''-'' \<and>
      isdigit m1 \<and> isdigit m2 \<and> dash2 = CHR ''-'' \<and> isdigit d1 \<and> isdigit d2 \<and>
      (case make_date (1000 * digit y1 + 100 * digit y2 + 10 * digit y3 + digit y4)
              (10 * digit m1 + digit m2) (10 * digit d1 + digit d2) of
         Inl e \<Rightarrow> False
       | Inr d \<Rightarrow> True))"
| "strict_ymd s = False"

section \<open>Notions used to state the properties of the due dates\<close>

text \<open>
  The parsed due date of a row: the date that \<open>strptime_ymd\<close> returns for its \<open>due_date\<close>
  column, if the column is not \<open>NULL\<close> and the string parses.
\<close>

definition parsed_due :: "result_row \<Rightarrow> date option" where
  "parsed_due row =
     (case row of (idn, note_text, tags_text, due) \<Rightarrow>
        (case due of
           None \<Rightarrow> None
         | Some s \<Rightarrow> (case strptime_ymd s of Inl e \<Rightarrow> None | Inr d \<Rightarrow> Some d)))"

text \<open>The matching predicate of each mode, on the parsed due date of a row.\<close>

definition due_matches :: "string \<Rightarrow> date \<Rightarrow> result_row \<Rightarrow> bool" where
  "due_matches mode today row =
     (case parsed_due row of
        None \<Rightarrow> False
      | Some d \<Rightarrow>
          (mode = ''today'' \<and> d = today) \<or>
          (mode = ''overdue'' \<and> d < today) \<or>
          (mode = ''week'' \<and> today \<le> d \<and> d \<le> today + 7))"

section \<open>Searching for a separator\<close>

lemma rfind_split_None: "sep \<noteq> [] \<Longrightarrow> (rfind_split sep s = None) = (\<not> contains sep s)"
  by (induction s) (auto split: option.splits)

lemma rfind_split_Some:
  "rfind_split sep s = Some (a, b) \<Longrightarrow> s = a @ sep @ b"
proof (induction s arbitrary: a b)
  case Nil
  then show ?case by simp
next
  case (Cons c cs)
  show ?case
  proof (cases "rfind_split sep cs")
    case None
    with Cons.prems have st: "startswith (c # cs) sep"
      and ab: "a = []" "b = drop (length sep) (c # cs)"
      by (auto split: if_splits)
    from st have "take (length sep) (c # cs) = sep" by (simp add: startswith_def)
    then have "c # cs = sep @ drop (length sep) (c # cs)"
      by (metis append_take_drop_id)
    with ab show ?thesis by simp
  next
    case (Some p)
    obtain a' b' where p: "p = (a', b')" by (cases p)
    with Some Cons.prems have "a = c # a'" "b = b'" by auto
    moreover from Cons.IH Some p have "cs = a' @ sep @ b'" by simp
    ultimately show ?thesis by simp
  qed
qed

lemma parse_note_split_total:
  "contains ''[due:'' raw \<Longrightarrow> \<exists>a b. rsplit1 raw ''[due:'' = Inr [a, b]"
proof -
  assume "contains ''[due:'' raw"
  then have "rfind_split ''[due:'' raw \<noteq> None"
    using rfind_split_None [of "''[due:''" raw] by simp
  then obtain a b where "rfind_split ''[due:'' raw = Some (a, b)" by auto
  then show ?thesis by (simp add: rsplit1_def)
qed

section \<open>Totality of \<open>parse_note\<close>\<close>

text \<open>
  Claim C7. \<open>parse_note\<close> raises no exception for any input string: it always returns a
  dictionary. On the empty string the dictionary has the empty body, no tags and no due date.
\<close>

theorem parse_note_total:
  "(\<exists>n. parse_note t = Inr n) \<and>
   parse_note [] = Inr \<lparr>note = [], tags = [], due_date = None\<rparr>"
proof
  show "\<exists>n. parse_note t = Inr n"
  proof (cases "contains ''[due:'' t")
    case True
    then obtain a b where "rsplit1 t ''[due:'' = Inr [a, b]"
      using parse_note_split_total by blast
    with True show ?thesis by (simp add: parse_note_def unpack2_def Let_def)
  next
    case False
    then show ?thesis by (simp add: parse_note_def Let_def)
  qed
  show "parse_note [] = Inr \<lparr>note = [], tags = [], due_date = None\<rparr>"
    by (simp add: parse_note_def split_ws_def strip_def startswith_def)
qed

lemma contains_append: "contains sep (a @ sep @ b)"
proof (induction a)
  case Nil
  have "startswith (sep @ b) sep" by (simp add: startswith_def)
  then show ?case by (cases "sep @ b") simp_all
next
  case (Cons c a)
  then show ?case by simp
qed

lemma contains_decompose: "contains sep s \<Longrightarrow> \<exists>a b. s = a @ sep @ b"
proof (induction s)
  case Nil
  then show ?case by simp
next
  case (Cons c cs)
  show ?case
  proof (cases "startswith (c # cs) sep")
    case True
    then have "c # cs = [] @ sep @ drop (length sep) (c # cs)"
      by (simp add: startswith_def) (metis append_take_drop_id)
    then show ?thesis by blast
  next
    case False
    with Cons.prems have "contains sep cs" by simp
    then obtain a b where "cs = a @ sep @ b" using Cons.IH by blast
    then have "c # cs = (c # a) @ sep @ b" by simp
    then show ?thesis by blast
  qed
qed

lemma rfind_split_last:
  "sep \<noteq> [] \<Longrightarrow> rfind_split sep s = Some (a, b) \<Longrightarrow> s = a' @ sep @ b' \<Longrightarrow> length a' \<le> length a"
proof (induction s arbitrary: a b a')
  case Nil
  then show ?case by simp
next
  case (Cons c cs)
  show ?case
  proof (cases a')
    case Nil
    then show ?thesis by simp
  next
    case (Cons d a'')
    with Cons.prems(3) have cs: "cs = a'' @ sep @ b'" by simp
    then have "contains sep cs" by (simp add: contains_append)
    with Cons.prems(1) have "rfind_split sep cs \<noteq> None"
      by (simp add: rfind_split_None)
    then obtain a0 b0 where r: "rfind_split sep cs = Some (a0, b0)" by auto
    with Cons.prems(2) have a: "a = c # a0" by simp
    from Cons.IH [OF Cons.prems(1) r cs] have "length a'' \<le> length a0" .
    with a Cons show ?thesis by simp
  qed
qed

lemma rfind_split_no_later:
  "sep \<noteq> [] \<Longrightarrow> rfind_split sep s = Some (a, b) \<Longrightarrow> \<not> contains sep b"
proof
  assume sep: "sep \<noteq> []" and r: "rfind_split sep s = Some (a, b)" and c: "contains sep b"
  from c obtain x y where b: "b = x @ sep @ y" using contains_decompose by blast
  from r have "s = a @ sep @ b" by (rule rfind_split_Some)
  with b have "s = (a @ sep @ x) @ sep @ y" by simp
  from rfind_split_last [OF sep r this] sep show False by simp
qed


lemma rfind_split_due:
  "\<not> contains ''[due:'' a \<Longrightarrow> rfind_split ''[due:'' (p @ ''[due:'' @ a) = Some (p, a)"
proof (induction p)
  case Nil
  then have "\<not> contains ''[due:'' (''due:'' @ a)"
    by (simp add: startswith_def)
  moreover have "''[due:'' \<noteq> []" by simp
  ultimately have "rfind_split ''[due:'' (''due:'' @ a) = None"
    using rfind_split_None by blast
  then show ?case by (simp add: startswith_def)
next
  case (Cons c p)
  then show ?case by simp
qed

lemma parse_note_marker:
  assumes "rfind_split ''[due:'' t = Some (a, b)"
  shows "parse_note t = Inr
     \<lparr>note = strip (join '' '' (filter (\<lambda>word. \<not> startswith word ''#'') (split_ws (strip a)))),
      tags = filter (\<lambda>word. startswith word ''#'') (split_ws (strip a)),
      due_date = Some (strip (rstrip_chars b '']''))\<rparr>"
proof -
  from assms have "contains ''[due:'' t"
    using rfind_split_None [of "''[due:''" t] by simp
  with assms show ?thesis
    by (simp add: parse_note_def rsplit1_def unpack2_def Let_def)
qed

lemma parse_note_no_marker:
  assumes "\<not> contains ''[due:'' t"
  shows "parse_note t = Inr
     \<lparr>note = strip (join '' '' (filter (\<lambda>word. \<not> startswith word ''#'') (split_ws (strip t)))),
      tags = filter (\<lambda>word. startswith word ''#'') (split_ws (strip t)),
      due_date = None\<rparr>"
  using assms by (simp add: parse_note_def Let_def)

section \<open>The due date that \<open>parse_note\<close> extracts\<close>

text \<open>
  Claim C3, as amended. If \<open>[due:\<close> occurs in the text, \<open>parse_note\<close> splits at its last
  occurrence (no occurrence starts further right, and none lies in the text after it), and the
  due date is the text after that occurrence with all trailing \<open>]\<close> characters removed and
  then the whitespace at both ends removed. If \<open>[due:\<close> does not occur, there is no due date.
\<close>

theorem parse_note_due_date:
  "(contains ''[due:'' t \<longrightarrow>
      (\<exists>before after n. t = before @ ''[due:'' @ after \<and> \<not> contains ''[due:'' after \<and>
          (\<forall>b' a'. t = b' @ ''[due:'' @ a' \<longrightarrow> length b' \<le> length before) \<and>
          parse_note t = Inr n \<and> due_date n = Some (strip (rstrip_chars after '']'')))) \<and>
   (\<not> contains ''[due:'' t \<longrightarrow> (\<exists>n. parse_note t = Inr n \<and> due_date n = None))"
proof (intro conjI impI)
  assume "contains ''[due:'' t"
  then have "rfind_split ''[due:'' t \<noteq> None"
    using rfind_split_None [of "''[due:''" t] by simp
  then obtain a b where r: "rfind_split ''[due:'' t = Some (a, b)" by auto
  have "t = a @ ''[due:'' @ b" using r by (rule rfind_split_Some)
  moreover have "\<not> contains ''[due:'' b"
    using rfind_split_no_later [OF _ r] by simp
  moreover have "\<forall>b' a'. t = b' @ ''[due:'' @ a' \<longrightarrow> length b' \<le> length a"
    using rfind_split_last [OF _ r] by simp
  moreover have "\<exists>n. parse_note t = Inr n \<and> due_date n = Some (strip (rstrip_chars b '']''))"
    using parse_note_marker [OF r] by simp
  ultimately show "\<exists>before after n. t = before @ ''[due:'' @ after \<and> \<not> contains ''[due:'' after \<and>
          (\<forall>b' a'. t = b' @ ''[due:'' @ a' \<longrightarrow> length b' \<le> length before) \<and>
          parse_note t = Inr n \<and> due_date n = Some (strip (rstrip_chars after '']''))"
    by blast
next
  assume "\<not> contains ''[due:'' t"
  then show "\<exists>n. parse_note t = Inr n \<and> due_date n = None"
    using parse_note_no_marker by simp
qed

theorem parse_note_due_date_witness:
  "contains ''[due:'' ''a [due:x]]'' \<and>
   (\<exists>before after n. ''a [due:x]]'' = before @ ''[due:'' @ after \<and> \<not> contains ''[due:'' after \<and>
      (\<forall>b' a'. ''a [due:x]]'' = b' @ ''[due:'' @ a' \<longrightarrow> length b' \<le> length before) \<and>
      parse_note ''a [due:x]]'' = Inr n \<and> due_date n = Some (strip (rstrip_chars after '']''))) \<and>
   \<not> contains ''[due:'' ''Read a book'' \<and>
   (\<exists>n. parse_note ''Read a book'' = Inr n \<and> due_date n = None)"
proof -
  have c1: "contains ''[due:'' ''a [due:x]]''" by code_simp
  have c2: "\<not> contains ''[due:'' ''Read a book''" by code_simp
  from c1 c2 parse_note_due_date [of "''a [due:x]]''"] parse_note_due_date [of "''Read a book''"]
  show ?thesis by blast
qed

text \<open>
  Claim C3 as the specification states it fails: of two trailing \<open>]\<close> characters the
  specification removes one, \<open>parse_note\<close> removes both.
\<close>

theorem parse_note_due_date_counterexample:
  "parse_note ''a [due:x]]'' = Inr \<lparr>note = ''a'', tags = [], due_date = Some ''x''\<rparr> \<and>
   strip (strip_one_bracket ''x]]'') = ''x]''"
  by code_simp

section \<open>The classification of \<open>view_due_notes\<close>\<close>

text \<open>
  The loop appends exactly the rows that match, in their order. The reference date is a date
  (its ordinal is at least 1) to which seven days can be added, that is, a date up to
  9999-12-24; for a later one \<open>today + timedelta(days=7)\<close> raises \<open>OverflowError\<close>.
\<close>

lemma make_date_error: "make_date y m d = Inl e \<Longrightarrow> e = ValueError"
  by (auto simp: make_date_def split: if_splits)

lemma strptime_ymd_error: "strptime_ymd s = Inl e \<Longrightarrow> e = ValueError"
  by (auto simp: strptime_ymd_def make_date_error split: list.splits prod.splits if_splits)

lemma strptime_ymd_empty: "strptime_ymd [] = Inl ValueError"
  by (simp add: strptime_ymd_def match_ymd_def dash_def)

lemma due_loop_filter:
  "due_loop mode today (today + 7) results filtered =
     Inr (filtered @ filter (due_matches mode today) results)"
proof (induction results arbitrary: filtered)
  case Nil
  show ?case by simp
next
  case (Cons row results)
  obtain idn note_text tags_text due where row: "row = (idn, note_text, tags_text, due)"
    by (cases row)
  have step: "due_loop mode today (today + 7) (row # results) filtered =
      due_loop mode today (today + 7) results
        (if due_matches mode today row then filtered @ [row] else filtered)"
  proof (cases due)
    case None
    with row show ?thesis by (simp add: due_matches_def parsed_due_def)
  next
    case (Some s)
    show ?thesis
    proof (cases "strptime_ymd s")
      case (Inl e)
      then have "e = ValueError" by (rule strptime_ymd_error)
      with Inl Some row show ?thesis
        by (simp add: due_matches_def parsed_due_def)
    next
      case (Inr d)
      then have "s \<noteq> []" using strptime_ymd_empty by auto
      with Inr Some row show ?thesis
        by (auto simp: due_matches_def parsed_due_def)
    qed
  qed
  show ?case unfolding step by (simp add: Cons.IH)
qed

lemma filter_due_notes_filter:
  assumes "1 \<le> today" and "today + 7 \<le> MAXORDINAL"
  shows "filter_due_notes results mode today = Inr (filter (due_matches mode today) results)"
  using assms by (simp add: filter_due_notes_def add_days_def due_loop_filter)

text \<open>
  Claim C5. For a reference date \<open>today\<close>, mode \<open>week\<close> selects exactly the rows whose parsed
  due date \<open>d\<close> satisfies \<open>today \<le> d \<le> today + 7\<close>, both ends included; mode \<open>today\<close>
  exactly those with \<open>d = today\<close>; mode \<open>overdue\<close> exactly those with \<open>d < today\<close>.
\<close>

theorem filter_due_notes_modes:
  assumes "1 \<le> today" and "today + 7 \<le> MAXORDINAL"
  shows "filter_due_notes results ''week'' today =
           Inr (filter (\<lambda>row. case parsed_due row of
                                None \<Rightarrow> False
                              | Some d \<Rightarrow> today \<le> d \<and> d \<le> today + 7) results) \<and>
         filter_due_notes results ''today'' today =
           Inr (filter (\<lambda>row. parsed_due row = Some today) results) \<and>
         filter_due_notes results ''overdue'' today =
           Inr (filter (\<lambda>row. case parsed_due row of
                                None \<Rightarrow> False
                              | Some d \<Rightarrow> d < today) results)"
proof -
  have w: "due_matches ''week'' today =
      (\<lambda>row. case parsed_due row of None \<Rightarrow> False | Some d \<Rightarrow> today \<le> d \<and> d \<le> today + 7)"
    by (rule ext) (simp add: due_matches_def split: option.splits)
  have t: "due_matches ''today'' today = (\<lambda>row. parsed_due row = Some today)"
    by (rule ext) (auto simp: due_matches_def split: option.splits)
  have ov: "due_matches ''overdue'' today =
      (\<lambda>row. case parsed_due row of None \<Rightarrow> False | Some d \<Rightarrow> d < today)"
    by (rule ext) (simp add: due_matches_def split: option.splits)
  show ?thesis
    using filter_due_notes_filter [OF assms, of results] w t ov by simp
qed

text \<open>
  On 2025-07-01, in mode \<open>week\<close>, a note due on 2025-07-08 (seven days later) is selected and
  a note due on 2025-07-09 (eight days later) is not.
\<close>

theorem filter_due_notes_modes_witness:
  "(1::int) \<le> 739433 \<and> 739433 + 7 \<le> MAXORDINAL \<and>
   strptime_ymd ''2025-07-01'' = Inr 739433 \<and>
   strptime_ymd ''2025-07-08'' = Inr (739433 + 7) \<and>
   strptime_ymd ''2025-07-09'' = Inr (739433 + 8) \<and>
   filter_due_notes
     [(1, ''a'', None, Some ''2025-07-08''), (2, ''b'', None, Some ''2025-07-09'')]
     ''week'' 739433 = Inr [(1, ''a'', None, Some ''2025-07-08'')]"
proof -
  have a: "(1::int) \<le> 739433" by simp
  have b: "(739433::int) + 7 \<le> MAXORDINAL" by (simp add: MAXORDINAL_def)
  have s0: "strptime_ymd ''2025-07-01'' = Inr 739433" by code_simp
  have s1: "strptime_ymd ''2025-07-08'' = Inr 739440" by code_simp
  have s2: "strptime_ymd ''2025-07-09'' = Inr 739441" by code_simp
  have p1: "parsed_due (i, a, t, Some ''2025-07-08'') = Some 739440" for i a t
    using s1 by (simp add: parsed_due_def)
  have p2: "parsed_due (i, a, t, Some ''2025-07-09'') = Some 739441" for i a t
    using s2 by (simp add: parsed_due_def)
  from filter_due_notes_modes [OF a b,
      of "[(1, ''a'', None, Some ''2025-07-08''), (2, ''b'', None, Some ''2025-07-09'')]"]
  have "filter_due_notes
     [(1, ''a'', None, Some ''2025-07-08''), (2, ''b'', None, Some ''2025-07-09'')]
     ''week'' 739433 = Inr [(1, ''a'', None, Some ''2025-07-08'')]"
    by (simp add: p1 p2)
  with a b s0 s1 s2 show ?thesis by simp
qed

text \<open>
  Claim C6, as amended. In every mode and for every reference date, a row whose due date is
  absent, empty, or a string for which \<open>strptime\<close> with the format \<open>%Y-%m-%d\<close> raises
  \<open>ValueError\<close> is not selected, and the classification returns its list: no exception
  leaves it.
\<close>

theorem filter_due_notes_skips:
  assumes "1 \<le> today" and "today + 7 \<le> MAXORDINAL"
    and "due = None \<or> due = Some [] \<or> (\<exists>s. due = Some s \<and> strptime_ymd s = Inl ValueError)"
  shows "\<exists>filtered. filter_due_notes results mode today = Inr filtered \<and>
           (idn, note_text, tags_text, due) \<notin> set filtered"
proof -
  from assms(3) have "parsed_due (idn, note_text, tags_text, due) = None"
    by (auto simp: parsed_due_def strptime_ymd_empty)
  then have "\<not> due_matches mode today (idn, note_text, tags_text, due)"
    by (simp add: due_matches_def)
  then show ?thesis
    using filter_due_notes_filter [OF assms(1,2), of results mode] by simp
qed

theorem filter_due_notes_skips_witness:
  "(1::int) \<le> 739433 \<and> 739433 + 7 \<le> MAXORDINAL \<and>
   strptime_ymd ''not-a-date'' = Inl ValueError \<and>
   (\<exists>filtered.
      filter_due_notes [(1, ''n'', None, Some ''not-a-date''), (2, ''m'', None, None)]
        ''today'' 739433 = Inr filtered \<and>
      (1, ''n'', None, Some ''not-a-date'') \<notin> set filtered)"
proof -
  have a: "(1::int) \<le> 739433" by simp
  have b: "(739433::int) + 7 \<le> MAXORDINAL" by (simp add: MAXORDINAL_def)
  have c: "strptime_ymd ''not-a-date'' = Inl ValueError" by code_simp
  then have d: "Some ''not-a-date'' = None \<or> Some ''not-a-date'' = Some [] \<or>
      (\<exists>s. Some ''not-a-date'' = Some s \<and> strptime_ymd s = Inl ValueError)"
    by simp
  from filter_due_notes_skips [OF a b d] a b c show ?thesis by blast
qed

text \<open>
  Claim C6 as the specification states it fails: \<open>2025-7-1\<close> is not strictly of the form
  \<open>YYYY-MM-DD\<close>, but \<open>strptime\<close> reads it as 2025-07-01 and the note is selected on that day.
\<close>

theorem filter_due_notes_strict_counterexample:
  "\<not> strict_ymd ''2025-7-1'' \<and>
   filter_due_notes [(1, ''n'', None, Some ''2025-7-1'')] ''today'' 739433 =
     Inr [(1, ''n'', None, Some ''2025-7-1'')]"
  by code_simp

text \<open>
  Claim C8, as amended. For every list of rows, every mode and every reference date to which
  seven days can be added, the rows selected are exactly the rows that match, in the order in
  which they were read: a subsequence of the rows read that is empty if and only if no row
  matches.
\<close>

theorem filter_due_notes_subseq:
  assumes "1 \<le> today" and "today + 7 \<le> MAXORDINAL"
  shows "\<exists>filtered. filter_due_notes results mode today = Inr filtered \<and>
           filtered = filter (due_matches mode today) results \<and>
           subseq filtered results \<and>
           (filtered = [] \<longleftrightarrow> (\<forall>row \<in> set results. \<not> due_matches mode today row))"
  using filter_due_notes_filter [OF assms, of results mode] by (simp add: filter_empty_conv)

text \<open>
  On 2025-07-01, in mode \<open>today\<close>, the first and the third of four rows are selected, in
  this order, around a row whose due date is not a date.
\<close>

theorem filter_due_notes_subseq_witness:
  "(1::int) \<le> 739433 \<and> 739433 + 7 \<le> MAXORDINAL \<and>
   (\<exists>filtered.
      filter_due_notes
        [(1, ''a'', None, Some ''2025-07-01''), (2, ''b'', None, Some ''not-a-date''),
         (3, ''c'', None, Some ''2025-07-01''), (4, ''d'', None, Some ''2025-07-02'')]
        ''today'' 739433 = Inr filtered \<and>
      filtered = [(1, ''a'', None, Some ''2025-07-01''), (3, ''c'', None, Some ''2025-07-01'')] \<and>
      subseq filtered
        [(1, ''a'', None, Some ''2025-07-01''), (2, ''b'', None, Some ''not-a-date''),
         (3, ''c'', None, Some ''2025-07-01''), (4, ''d'', None, Some ''2025-07-02'')])"
proof -
  have a: "(1::int) \<le> 739433" by simp
  have b: "(739433::int) + 7 \<le> MAXORDINAL" by (simp add: MAXORDINAL_def)
  have s1: "strptime_ymd ''2025-07-01'' = Inr 739433" by code_simp
  have s2: "strptime_ymd ''not-a-date'' = Inl ValueError" by code_simp
  have s4: "strptime_ymd ''2025-07-02'' = Inr 739434" by code_simp
  have m1: "due_matches ''today'' 739433 (i, a, t, Some ''2025-07-01'')" for i a t
    using s1 by (simp add: due_matches_def parsed_due_def)
  have m2: "\<not> due_matches ''today'' 739433 (i, a, t, Some ''not-a-date'')" for i a t
    using s2 by (simp add: due_matches_def parsed_due_def)
  have m4: "\<not> due_matches ''today'' 739433 (i, a, t, Some ''2025-07-02'')" for i a t
    using s4 by (simp add: due_matches_def parsed_due_def)
  from filter_due_notes_subseq [OF a b,
      of "[(1, ''a'', None, Some ''2025-07-01''), (2, ''b'', None, Some ''not-a-date''),
           (3, ''c'', None, Some ''2025-07-01''), (4, ''d'', None, Some ''2025-07-02'')]" "''today''"]
    m1 m2 m4 a b show ?thesis by auto
qed

text \<open>
  Claim C8 as the specification states it, for every reference date, fails: on 9999-12-25
  \<open>today + timedelta(days=7)\<close> raises \<open>OverflowError\<close> before the loop starts, so no list
  is returned, whether the table is empty or holds a note that is due on that day.
\<close>

theorem filter_due_notes_subseq_counterexample:
  "make_date 9999 12 25 = Inr 3652053 \<and>
   filter_due_notes [] ''today'' 3652053 = Inl OverflowError \<and>
   filter_due_notes [(1, ''n'', None, Some ''9999-12-25'')] ''today'' 3652053 = Inl OverflowError"
  by code_simp

section \<open>A due marker without a date\<close>

text \<open>
  A text made of whitespace followed by \<open>]\<close> characters contains no \<open>[due:\<close>, and
  \<open>rstrip("]")\<close> followed by \<open>strip()\<close> leaves nothing of it.
\<close>

lemma contains_hd: "contains sub s \<Longrightarrow> sub \<noteq> [] \<Longrightarrow> hd sub \<in> set s"
proof (induction s)
  case Nil
  then show ?case by simp
next
  case (Cons c cs)
  show ?case
  proof (cases "startswith (c # cs) sub")
    case True
    then have "take (length sub) (c # cs) = sub" by (simp add: startswith_def)
    with Cons.prems(2) have "hd sub = c" by (cases sub) auto
    then show ?thesis by simp
  next
    case False
    with Cons show ?thesis by simp
  qed
qed

lemma dropWhile_all: "\<forall>c \<in> set s. P c \<Longrightarrow> dropWhile P s = []"
  by (induction s) simp_all

lemma strip_all_space: "\<forall>c \<in> set s. isspace c \<Longrightarrow> strip s = []"
  by (simp add: strip_def dropWhile_all)

lemma rstrip_chars_replicate:
  "c \<in> set chars \<Longrightarrow> rstrip_chars (w @ replicate k c) chars = rstrip_chars w chars"
proof -
  assume c: "c \<in> set chars"
  have "dropWhile (\<lambda>c. c \<in> set chars) (replicate k c @ rev w) =
      dropWhile (\<lambda>c. c \<in> set chars) (rev w)"
    using c by (induction k) simp_all
  then show ?thesis by (simp add: rstrip_chars_def)
qed

lemma rstrip_chars_subset: "set (rstrip_chars s chars) \<subseteq> set s"
  using set_dropWhileD [of _ "\<lambda>c. c \<in> set chars" "rev s"] by (auto simp: rstrip_chars_def)

lemma due_chunk_empty:
  assumes "\<forall>c \<in> set w. isspace c"
  shows "strip (rstrip_chars (w @ replicate k CHR '']'') '']'') = []"
proof -
  have "rstrip_chars (w @ replicate k CHR '']'') '']'' = rstrip_chars w '']''"
    by (rule rstrip_chars_replicate) simp
  moreover have "\<forall>c \<in> set (rstrip_chars w '']''). isspace c"
    using assms rstrip_chars_subset [of w "'']''"] by blast
  ultimately show ?thesis by (simp add: strip_all_space)
qed

lemma due_chunk_no_marker:
  assumes "\<forall>c \<in> set w. isspace c"
  shows "\<not> contains ''[due:'' (w @ replicate k CHR '']'')"
proof
  assume "contains ''[due:'' (w @ replicate k CHR '']'')"
  then have "hd ''[due:'' \<in> set (w @ replicate k CHR '']'')"
    by (rule contains_hd) simp
  then have "CHR ''['' \<in> set w" by (auto split: if_splits)
  with assms have "isspace CHR ''[''" by blast
  then show False by (simp add: isspace_def)
qed

lemma not_due_matches_empty: "\<not> due_matches mode today (idn, note_text, tags_text, Some [])"
  by (simp add: due_matches_def parsed_due_def strptime_ymd_empty)

lemma not_due_matches_None: "\<not> due_matches mode today (idn, note_text, tags_text, None)"
  by (simp add: due_matches_def parsed_due_def)

text \<open>
  Claim C10, as amended. If the text after the last \<open>[due:\<close> marker is whitespace followed
  by \<open>]\<close> characters (any number of each, as in \<open>task [due:]\<close>), \<open>parse_note\<close> returns the
  empty string as due date, a value that is present and differs from \<open>None\<close>. Downstream both
  values behave as no due date: the classification selects a row with neither of them, and
  \<open>build_note_from_json\<close> builds the same text for both.
\<close>

theorem parse_note_empty_due:
  assumes w: "\<forall>c \<in> set w. isspace c"
    and today: "1 \<le> today" "today + 7 \<le> MAXORDINAL"
  shows "\<exists>n filtered. parse_note (p @ ''[due:'' @ w @ replicate k CHR '']'') = Inr n \<and>
           due_date n = Some [] \<and> due_date n \<noteq> None \<and>
           filter_due_notes results mode today = Inr filtered \<and>
           (idn, note n, tags_text, due_date n) \<notin> set filtered \<and>
           (idn, note n, tags_text, None) \<notin> set filtered \<and>
           build_note_from_json n = build_note_from_json (n\<lparr>due_date := None\<rparr>)"
proof -
  let ?chunk = "w @ replicate k CHR '']''"
  have "rfind_split ''[due:'' (p @ ''[due:'' @ ?chunk) = Some (p, ?chunk)"
    using due_chunk_no_marker [OF w] by (rule rfind_split_due)
  from parse_note_marker [OF this] obtain n where
    n: "parse_note (p @ ''[due:'' @ ?chunk) = Inr n"
    and d: "due_date n = Some (strip (rstrip_chars ?chunk '']''))"
    by simp
  from d have e: "due_date n = Some []" by (simp add: due_chunk_empty [OF w])
  have f: "filter_due_notes results mode today = Inr (filter (due_matches mode today) results)"
    using today by (rule filter_due_notes_filter)
  have b: "build_note_from_json n = build_note_from_json (n\<lparr>due_date := None\<rparr>)"
    using e by (simp add: build_note_from_json_def)
  from n e f b show ?thesis
    by (simp add: not_due_matches_empty not_due_matches_None)
qed

theorem parse_note_empty_due_witness:
  "isspace CHR '' '' \<and> (1::int) \<le> 739433 \<and> 739433 + 7 \<le> MAXORDINAL \<and>
   (\<exists>n filtered. parse_note ''task [due: ]]'' = Inr n \<and>
      due_date n = Some [] \<and> due_date n \<noteq> None \<and>
      filter_due_notes [(1, ''task'', None, Some []), (2, ''task'', None, None)] ''week'' 739433 =
        Inr filtered \<and>
      (1, note n, None, due_date n) \<notin> set filtered \<and>
      (1, note n, None, None) \<notin> set filtered \<and>
      build_note_from_json n = build_note_from_json (n\<lparr>due_date := None\<rparr>))"
proof -
  have s: "isspace CHR '' ''" by (simp add: isspace_def)
  then have w: "\<forall>c \<in> set '' ''. isspace c" by simp
  have a: "(1::int) \<le> 739433" by simp
  have b: "(739433::int) + 7 \<le> MAXORDINAL" by (simp add: MAXORDINAL_def)
  have t: "''task '' @ ''[due:'' @ '' '' @ replicate (Suc (Suc 0)) CHR '']'' = ''task [due: ]]''"
    by simp
  from parse_note_empty_due [OF w a b, of "''task ''" "Suc (Suc 0)"
      "[(1, ''task'', None, Some []), (2, ''task'', None, None)]" "''week''" 1 None]
  show ?thesis unfolding t using s a b by blast
qed

text \<open>
  Claim C10 as the specification states it fails on the text \<open>task [due:] \<close>, in which the
  marker is followed by a \<open>]\<close> and a space: the due date that \<open>parse_note\<close> returns is not
  the empty string.
\<close>

theorem parse_note_empty_due_counterexample:
  "isspace CHR '' '' \<and>
   parse_note ''task [due:] '' = Inr \<lparr>note = ''task'', tags = [], due_date = Some '']''\<rparr>"
  by code_simp

section \<open>Duplicates in \<open>add_note_to_db\<close>\<close>

text \<open>
  The \<open>WHERE\<close> clause of the duplicate check selects the rows of the user with the same
  note, the same due date, \<open>NULL\<close> included, and the same tags string that is not \<open>NULL\<close>.
  With \<open>NULL\<close> as tags parameter it selects no row.
\<close>

lemma sql_and_true: "(sql_and p q = Some True) = (p = Some True \<and> q = Some True)"
  by (cases "(p, q)" rule: sql_and.cases) simp_all

lemma sql_eq_true: "(sql_eq a b = Some True) = (a \<noteq> None \<and> a = b)"
  by (cases a; cases b) (simp_all add: sql_eq_def)

lemma select_duplicate_iff:
  "r \<in> set (select_duplicate user note_text tag_string due db) \<longleftrightarrow>
     r \<in> set (db_rows db) \<and> row_user r = user \<and> row_note r = note_text \<and>
     row_tags r \<noteq> None \<and> row_tags r = tag_string \<and> row_due_date r = due"
  by (simp add: select_duplicate_def sql_where_def sql_and_true sql_eq_true sql_is_def)

lemma select_duplicate_null_tags: "select_duplicate user note_text None due db = []"
  by (auto simp: select_duplicate_def sql_where_def sql_and_true sql_eq_true filter_empty_conv)

text \<open>
  Claim C1. \<open>add_note_to_db\<close> does not do what the claim says. Every call leaves the
  \<open>with\<close> block on a closed connection and ends with \<open>ProgrammingError\<close> in place of the
  \<open>bool\<close>. A note without tags is inserted whatever the table holds, since its tags
  parameter is \<open>NULL\<close>: added twice to the empty table, it is there twice.
\<close>

theorem add_note_to_db_null_tags:
  "fst (add_note_to_db user note_text tag_list due db) = Inl ProgrammingError \<and>
   snd (add_note_to_db user note_text [] due db) = insert_note user note_text None due db \<and>
   snd (add_note_to_db ''u'' ''n'' [] None (snd (add_note_to_db ''u'' ''n'' [] None empty_db))) =
     \<lparr>db_rows =
        [\<lparr>row_id = 1, row_user = ''u'', row_note = ''n'', row_tags = None, row_due_date = None\<rparr>,
         \<lparr>row_id = 2, row_user = ''u'', row_note = ''n'', row_tags = None, row_due_date = None\<rparr>],
      db_seq = 2\<rparr>"
proof -
  have a: "fst (add_note_to_db user note_text tag_list due db) = Inl ProgrammingError"
    by (simp add: add_note_to_db_def leave_with_def Let_def)
  have b: "snd (add_note_to_db u n [] d t) = insert_note u n None d t" for u n d t
    by (simp add: add_note_to_db_def Let_def select_duplicate_null_tags fetchone_def)
  have c: "insert_note ''u'' ''n'' None None (insert_note ''u'' ''n'' None None empty_db) =
     \<lparr>db_rows =
        [\<lparr>row_id = 1, row_user = ''u'', row_note = ''n'', row_tags = None, row_due_date = None\<rparr>,
         \<lparr>row_id = 2, row_user = ''u'', row_note = ''n'', row_tags = None, row_due_date = None\<rparr>],
      db_seq = 2\<rparr>"
    by (simp add: insert_note_def empty_db_def)
  show ?thesis unfolding b c using a by simp
qed

section \<open>Tags from insert to export\<close>

text \<open>
  Splitting at commas undoes joining with commas, for a list that is not empty and whose
  elements have no comma. The joined string is empty only for the list of one empty tag.
\<close>

lemma startswith_single: "startswith (c # cs) [d] = (c = d)"
  by (simp add: startswith_def)

lemma split_comma_token:
  "CHR '','' \<notin> set x \<Longrightarrow> split_sep_aux '','' cur x = [cur @ x]"
  by (induction x arbitrary: cur) (auto simp: startswith_single)

lemma split_comma_append:
  "CHR '','' \<notin> set x \<Longrightarrow>
     split_sep_aux '','' cur (x @ CHR '','' # s) = (cur @ x) # split_sep_aux '','' [] s"
  by (induction x arbitrary: cur) (auto simp: startswith_single)

lemma split_join:
  "\<forall>t \<in> set tag_list. CHR '','' \<notin> set t \<Longrightarrow> tag_list \<noteq> [] \<Longrightarrow>
     split_sep_aux '','' [] (join '','' tag_list) = tag_list"
proof (induction "'',''" tag_list rule: join.induct)
  case 1
  then show ?case by simp
next
  case (2 x)
  then show ?case by (simp add: split_comma_token)
next
  case (3 x y ys)
  then show ?case by (simp add: split_comma_append)
qed

lemma join_comma_empty: "tag_list \<noteq> [] \<Longrightarrow> (join '','' tag_list = []) = (tag_list = [''''])"
  by (induction "'',''" tag_list rule: join.induct) simp_all

lemma export_loop_map:
  "(\<And>r. export_entry r = Inr (f r)) \<Longrightarrow> export_loop rows data = Inr (data @ map f rows)"
  by (induction rows arbitrary: data) simp_all

lemma export_entry_Inr:
  "export_entry r = Inr \<lparr>note = row_note r,
      tags = (case row_tags r of None \<Rightarrow> []
              | Some t \<Rightarrow> if t \<noteq> [] then split_sep_aux '','' [] t else []),
      due_date = row_due_date r\<rparr>"
  by (simp add: export_entry_def split_sep_def split: option.splits)

text \<open>
  Claim C9, as amended. For every list of tags without commas, other than the list of one
  empty tag, adding a note with these tags and then exporting the notes of the user gives
  the tags back as they were, in their order: the export after the call is the export
  before it followed by the note with its tags and its due date, or, if the note was found
  to be a duplicate, it is the export before it and holds the note with these tags.
\<close>

theorem export_tags_round_trip:
  assumes commas: "\<forall>t \<in> set tag_list. CHR '','' \<notin> set t" and ne: "tag_list \<noteq> ['''']"
  shows "\<exists>data data'.
     export_notes_to_json user db = Inr data \<and>
     export_notes_to_json user (snd (add_note_to_db user note_text tag_list due db)) = Inr data' \<and>
     (data' = data @ [\<lparr>note = note_text, tags = tag_list, due_date = due\<rparr>] \<or>
      data' = data \<and> \<lparr>note = note_text, tags = tag_list, due_date = due\<rparr> \<in> set data)"
proof -
  let ?f = "\<lambda>r. \<lparr>note = row_note r,
      tags = (case row_tags r of None \<Rightarrow> []
              | Some t \<Rightarrow> if t \<noteq> [] then split_sep_aux '','' [] t else []),
      due_date = row_due_date r\<rparr>"
  let ?D = "\<lparr>note = note_text, tags = tag_list, due_date = due\<rparr>"
  let ?ts = "if tag_list \<noteq> [] then Some (join '','' tag_list) else None"
  have ex: "export_notes_to_json user d = Inr (map ?f (filter (\<lambda>r. row_user r = user) (db_rows d)))"
    for d
    using export_loop_map [of ?f _ "[]"] by (simp add: export_notes_to_json_def export_entry_Inr)
  have tags: "(case ?ts of None \<Rightarrow> []
              | Some t \<Rightarrow> if t \<noteq> [] then split_sep_aux '','' [] t else []) = tag_list"
  proof (cases "tag_list = []")
    case True
    then show ?thesis by simp
  next
    case False
    with ne have "join '','' tag_list \<noteq> []" by (simp add: join_comma_empty)
    with False commas show ?thesis by (simp add: split_join)
  qed
  have D: "row_user r = user \<Longrightarrow> row_note r = note_text \<Longrightarrow> row_tags r = ?ts \<Longrightarrow>
      row_due_date r = due \<Longrightarrow> ?f r = ?D" for r :: row
    using tags by simp
  show ?thesis
  proof (cases "select_duplicate user note_text ?ts due db")
    case Nil
    then have db': "snd (add_note_to_db user note_text tag_list due db) =
        insert_note user note_text ?ts due db"
      by (simp add: add_note_to_db_def Let_def fetchone_def)
    let ?new = "\<lparr>row_id = Suc (db_seq db), row_user = user, row_note = note_text,
          row_tags = ?ts, row_due_date = due\<rparr>"
    have "?f ?new = ?D" by (rule D) simp_all
    then have "export_notes_to_json user (insert_note user note_text ?ts due db) =
        Inr (map ?f (filter (\<lambda>r. row_user r = user) (db_rows db)) @ [?D])"
      unfolding ex by (simp add: insert_note_def)
    with db' ex [of db] show ?thesis by simp
  next
    case (Cons r rs)
    then have db': "snd (add_note_to_db user note_text tag_list due db) = db"
      by (simp add: add_note_to_db_def Let_def fetchone_def)
    from Cons have "r \<in> set (select_duplicate user note_text ?ts due db)" by simp
    then have r: "r \<in> set (db_rows db)" "row_user r = user" "row_note r = note_text"
        "row_tags r = ?ts" "row_due_date r = due"
      unfolding select_duplicate_iff by simp_all
    from D [OF r(2-5)] r(1,2) have "?D \<in> set (map ?f (filter (\<lambda>r. row_user r = user) (db_rows db)))"
      by force
    with db' ex [of db] show ?thesis by simp
  qed
qed

theorem export_tags_round_trip_witness:
  "CHR '','' \<notin> set ''#a'' \<and> CHR '','' \<notin> set ''#b'' \<and>
   export_notes_to_json ''u''
     (snd (add_note_to_db ''u'' ''B'' [''#a'', ''#b''] (Some ''2025-01-01'') empty_db)) =
   Inr [\<lparr>note = ''B'', tags = [''#a'', ''#b''], due_date = Some ''2025-01-01''\<rparr>]"
proof -
  have c: "\<forall>t \<in> set [''#a'', ''#b'']. CHR '','' \<notin> set t" by simp
  have n: "[''#a'', ''#b''] \<noteq> ['''']" by simp
  have e: "export_notes_to_json ''u'' empty_db = Inr []"
    by (simp add: export_notes_to_json_def empty_db_def)
  from export_tags_round_trip [OF c n, of "''u''" empty_db "''B''" "Some ''2025-01-01''"] e
  show ?thesis by auto
qed

text \<open>
  Claim C9 as the specification states it fails for the list of one empty tag, an element
  without a comma: the joined string is empty, and the export reads an empty tags string as
  no tags.
\<close>

theorem export_tags_round_trip_counterexample:
  "CHR '','' \<notin> set [] \<and>
   export_notes_to_json ''u'' (snd (add_note_to_db ''u'' ''B'' [''''] None empty_db)) =
     Inr [\<lparr>note = ''B'', tags = [], due_date = None\<rparr>]"
  by code_simp

section \<open>Tokens of a text\<close>

text \<open>
  \<open>split_ws\<close> ignores the whitespace at both ends of a text. Its tokens are not empty and
  hold no whitespace, and it returns the tokens from which a text was joined with single
  spaces. A text joined from tokens has no whitespace at its ends.
\<close>

lemma split_ws_aux_space_end:
  "isspace c \<Longrightarrow> split_ws_aux cur (s @ [c]) = split_ws_aux cur s"
  by (induction s arbitrary: cur) simp_all

lemma split_ws_aux_trailing:
  "\<forall>c \<in> set w. isspace c \<Longrightarrow> split_ws_aux cur (s @ w) = split_ws_aux cur s"
proof (induction w arbitrary: s)
  case Nil
  show ?case by simp
next
  case (Cons c w)
  have "split_ws_aux cur (s @ c # w) = split_ws_aux cur ((s @ [c]) @ w)" by simp
  also have "\<dots> = split_ws_aux cur (s @ [c])" using Cons.prems by (intro Cons.IH) simp
  also have "\<dots> = split_ws_aux cur s" using Cons.prems by (simp add: split_ws_aux_space_end)
  finally show ?case .
qed

lemma split_ws_aux_leading: "split_ws_aux [] (dropWhile isspace s) = split_ws_aux [] s"
  by (induction s) simp_all

lemma rstrip_decompose: "rev (dropWhile P (rev s)) @ rev (takeWhile P (rev s)) = s"
proof -
  have "rev (takeWhile P (rev s) @ dropWhile P (rev s)) = s" by simp
  then show ?thesis by (simp only: rev_append)
qed

lemma split_ws_strip: "split_ws (strip s) = split_ws s"
proof -
  let ?u = "dropWhile isspace s"
  let ?w = "rev (takeWhile isspace (rev ?u))"
  have "\<forall>c \<in> set ?w. isspace c" by (auto dest: set_takeWhileD)
  then have "split_ws_aux [] (strip s @ ?w) = split_ws_aux [] (strip s)"
    by (rule split_ws_aux_trailing)
  moreover have "strip s @ ?w = ?u" unfolding strip_def by (rule rstrip_decompose)
  ultimately show ?thesis by (simp add: split_ws_def split_ws_aux_leading)
qed

lemma split_ws_aux_token:
  "\<forall>c \<in> set x. \<not> isspace c \<Longrightarrow> split_ws_aux cur (x @ s) = split_ws_aux (cur @ x) s"
  by (induction x arbitrary: cur) simp_all




lemma strip_id: "s = [] \<or> \<not> isspace (hd s) \<and> \<not> isspace (last s) \<Longrightarrow> strip s = s"
proof (cases s)
  case Nil
  then show ?thesis by (simp add: strip_def)
next
  case (Cons c cs)
  assume "s = [] \<or> \<not> isspace (hd s) \<and> \<not> isspace (last s)"
  with Cons have h: "\<not> isspace c" and l: "\<not> isspace (last s)" by simp_all
  from h Cons have "dropWhile isspace s = s" by simp
  moreover have "hd (rev s) = last s" by (simp add: hd_rev)
  with l have "\<not> isspace (hd (rev s))" by simp
  then have "dropWhile isspace (rev s) = rev s" by (cases "rev s") simp_all
  ultimately show ?thesis by (simp add: strip_def)
qed










section \<open>The tags and the body that \<open>parse_note\<close> returns\<close>



section \<open>Lines of a legacy text file\<close>

text \<open>
  A token of a text is a part of the text, so a text without \<open>[due:\<close> has no token that
  begins with it. A text that ends in a token after whitespace has the tokens of the text
  before it, then this token. \<open>split\<close> cuts a text at the first \<open>[due:\<close>, and a text in
  which no \<open>]\<close> comes before a run of \<open>]\<close> at that run.
\<close>

lemma split_ws_aux_substring:
  "w \<in> set (split_ws_aux cur s) \<Longrightarrow> \<exists>a b. cur @ s = a @ w @ b"
proof (induction s arbitrary: cur)
  case Nil
  then have "w = cur" by (simp split: if_splits)
  then have "cur @ [] = [] @ w @ []" by simp
  then show ?case by blast
next
  case (Cons c cs)
  show ?case
  proof (cases "isspace c")
    case True
    with Cons.prems have "w = cur \<or> w \<in> set (split_ws_aux [] cs)"
      by (simp split: if_splits)
    then show ?thesis
    proof
      assume "w = cur"
      then have "cur @ c # cs = [] @ w @ (c # cs)" by simp
      then show ?thesis by blast
    next
      assume "w \<in> set (split_ws_aux [] cs)"
      then obtain a b where "[] @ cs = a @ w @ b" using Cons.IH by blast
      then have "cur @ c # cs = (cur @ c # a) @ w @ b" by simp
      then show ?thesis by blast
    qed
  next
    case False
    with Cons.prems have "w \<in> set (split_ws_aux (cur @ [c]) cs)" by simp
    then obtain a b where "(cur @ [c]) @ cs = a @ w @ b" using Cons.IH by blast
    then have "cur @ c # cs = a @ w @ b" by simp
    then show ?thesis by blast
  qed
qed

lemma token_not_due:
  assumes "\<not> contains ''[due:'' s" and "w \<in> set (split_ws s)"
  shows "\<not> startswith w ''[due:''"
proof
  assume "startswith w ''[due:''"
  then have "w = ''[due:'' @ drop (length ''[due:'') w"
    unfolding startswith_def by (metis append_take_drop_id)
  then obtain w' where w: "w = ''[due:'' @ w'" by blast
  from assms(2) obtain a b where "[] @ s = a @ w @ b"
    unfolding split_ws_def using split_ws_aux_substring by blast
  with w have "s = a @ ''[due:'' @ (w' @ b)" by simp
  then have "contains ''[due:'' s" using contains_append by metis
  with assms(1) show False by simp
qed

lemma filter_not_due:
  assumes "\<not> contains ''[due:'' s"
  shows "filter (\<lambda>w. \<not> startswith w ''#'' \<and> \<not> startswith w ''[due:'') (split_ws s) =
         filter (\<lambda>word. \<not> startswith word ''#'') (split_ws s)"
  by (rule filter_cong) (auto dest: token_not_due [OF assms])

lemma split_ws_aux_append:
  "isspace c \<Longrightarrow> split_ws_aux cur (s @ c # t) = split_ws_aux cur s @ split_ws_aux [] t"
  by (induction s arbitrary: cur) simp_all

lemma split_ws_single:
  "x \<noteq> [] \<Longrightarrow> \<forall>c \<in> set x. \<not> isspace c \<Longrightarrow> split_ws_aux [] x = [x]"
  using split_ws_aux_token [of x "[]" "[]"] by simp

lemma split_ws_last_token:
  assumes p: "p = [] \<or> isspace (last p)"
    and x: "x \<noteq> []" "\<forall>c \<in> set x. \<not> isspace c"
  shows "split_ws (p @ x) = split_ws p @ [x]"
proof (cases "p = []")
  case True
  with x show ?thesis by (simp add: split_ws_def split_ws_single)
next
  case False
  with p have sp: "isspace (last p)" by simp
  from False obtain q c where q: "p = q @ [c]" by (metis append_butlast_last_id)
  with sp have c: "isspace c" by simp
  have "split_ws_aux [] (q @ c # x) = split_ws_aux [] q @ split_ws_aux [] x"
    using c by (rule split_ws_aux_append)
  moreover have "split_ws_aux [] (q @ [c]) = split_ws_aux [] q"
    using c by (rule split_ws_aux_space_end)
  ultimately show ?thesis using x q by (simp add: split_ws_def split_ws_single)
qed

lemma split_sep_aux_none:
  "\<not> contains sep s \<Longrightarrow> split_sep_aux sep cur s = [cur @ s]"
  by (induction s arbitrary: cur) simp_all

lemma due_overlap:
  "q \<noteq> [] \<Longrightarrow> startswith (q @ ''[due:'' @ rest) ''[due:'' \<Longrightarrow> startswith q ''[due:''"
  by (cases q; cases "tl q"; cases "tl (tl q)"; cases "tl (tl (tl q))";
      cases "tl (tl (tl (tl q)))") (auto simp: startswith_def)

lemma split_due_first:
  "\<not> contains ''[due:'' p \<Longrightarrow>
     split_sep_aux ''[due:'' cur (p @ ''[due:'' @ rest) = (cur @ p) # split_sep_aux ''[due:'' [] rest"
proof (induction p arbitrary: cur)
  case Nil
  show ?case by (simp add: startswith_def)
next
  case (Cons c p)
  then have n: "\<not> startswith (c # p) ''[due:''" and np: "\<not> contains ''[due:'' p" by simp_all
  have "\<not> startswith ((c # p) @ ''[due:'' @ rest) ''[due:''"
    using due_overlap [of "c # p" rest] n by blast
  then have "split_sep_aux ''[due:'' cur ((c # p) @ ''[due:'' @ rest) =
      split_sep_aux ''[due:'' (cur @ [c]) (p @ ''[due:'' @ rest)"
    by simp
  with Cons.IH [OF np, of "cur @ [c]"] show ?case by simp
qed

lemma split_char_token:
  "ch \<notin> set x \<Longrightarrow> split_sep_aux [ch] cur x = [cur @ x]"
  by (induction x arbitrary: cur) (auto simp: startswith_def)

lemma split_char_append:
  "ch \<notin> set x \<Longrightarrow> split_sep_aux [ch] cur (x @ ch # s) = (cur @ x) # split_sep_aux [ch] [] s"
  by (induction x arbitrary: cur) (auto simp: startswith_def)


lemma no_bracket_no_due: "CHR ''['' \<notin> set s \<Longrightarrow> \<not> contains ''[due:'' s"
proof
  assume n: "CHR ''['' \<notin> set s" and "contains ''[due:'' s"
  then have "hd ''[due:'' \<in> set s" by (intro contains_hd) simp_all
  with n show False by simp
qed

lemma split_bracket_first:
  "CHR '']'' \<notin> set d \<Longrightarrow>
     \<exists>rest. split_sep_aux '']'' [] (d @ replicate k CHR '']'') = d # rest"
proof (cases k)
  case 0
  assume "CHR '']'' \<notin> set d"
  then show ?thesis using 0 by (simp add: split_char_token)
next
  case (Suc j)
  assume "CHR '']'' \<notin> set d"
  then show ?thesis using Suc by (simp add: split_char_append)
qed

lemma rstrip_chars_id: "s = [] \<or> last s \<notin> set chars \<Longrightarrow> rstrip_chars s chars = s"
proof (cases "rev s")
  case Nil
  then show ?thesis by (simp add: rstrip_chars_def)
next
  case (Cons c cs)
  assume "s = [] \<or> last s \<notin> set chars"
  moreover have "hd (rev s) = last s" by (simp add: hd_rev)
  ultimately have "c \<notin> set chars" using Cons by auto
  with Cons have "dropWhile (\<lambda>c. c \<in> set chars) (rev s) = rev s" by simp
  then show ?thesis by (simp add: rstrip_chars_def)
qed

lemma due_chunk_clean:
  assumes "\<forall>c \<in> set d. \<not> isspace c \<and> c \<noteq> CHR '']'' \<and> c \<noteq> CHR ''[''"
  shows "strip (rstrip_chars (d @ replicate k CHR '']'') '']'') = d"
proof -
  have "rstrip_chars (d @ replicate k CHR '']'') '']'' = rstrip_chars d '']''"
    by (rule rstrip_chars_replicate) simp
  moreover have "rstrip_chars d '']'' = d"
  proof (rule rstrip_chars_id)
    show "d = [] \<or> last d \<notin> set '']''"
    proof (cases "d = []")
      case True
      then show ?thesis by simp
    next
      case False
      then have "last d \<in> set d" by simp
      with assms show ?thesis by auto
    qed
  qed
  moreover have "strip d = d"
  proof (rule strip_id)
    show "d = [] \<or> \<not> isspace (hd d) \<and> \<not> isspace (last d)"
    proof (cases "d = []")
      case True
      then show ?thesis by simp
    next
      case False
      then have "hd d \<in> set d" "last d \<in> set d" by simp_all
      with assms show ?thesis by blast
    qed
  qed
  ultimately show ?thesis by simp
qed

lemma import_txt_line_no_marker:
  assumes "strip raw_line \<noteq> []" and "\<not> contains ''[due:'' (strip raw_line)"
  shows "\<exists>n. parse_note (strip raw_line) = Inr n \<and>
           import_txt_line raw_line = Some (note n, tags n, due_date n)"
proof -
  let ?line = "strip raw_line"
  have "import_txt_line raw_line =
      Some (strip (join '' '' (filter (\<lambda>word. \<not> startswith word ''#'') (split_ws ?line))),
            filter (\<lambda>word. startswith word ''#'') (split_ws ?line), None)"
    using assms by (simp add: import_txt_line_def Let_def filter_not_due)
  moreover have "parse_note ?line = Inr
     \<lparr>note = strip (join '' '' (filter (\<lambda>word. \<not> startswith word ''#'') (split_ws ?line))),
      tags = filter (\<lambda>word. startswith word ''#'') (split_ws ?line),
      due_date = None\<rparr>"
    using parse_note_no_marker [OF assms(2)] by (simp add: split_ws_strip)
  ultimately show ?thesis by simp
qed

lemma import_due_value:
  assumes "split_sep_aux ''[due:'' [] line = [p, a]" and "split_sep_aux '']'' [] a = d # rest"
  shows "and_then (split_sep line ''[due:'')
      (\<lambda>xs. and_then (index xs 1)
      (\<lambda>x. and_then (split_sep x '']'')
      (\<lambda>ys. index ys 0))) = Inr d"
  by (simp add: split_sep_def assms index_def)

lemma import_txt_line_value:
  assumes "strip raw_line = line" and "line \<noteq> []" and "contains ''[due:'' line"
    and "and_then (split_sep line ''[due:'')
      (\<lambda>xs. and_then (index xs 1)
      (\<lambda>x. and_then (split_sep x '']'')
      (\<lambda>ys. index ys 0))) = Inr d"
    and "filter (\<lambda>word. startswith word ''#'') (split_ws line) = T"
    and "filter (\<lambda>w. \<not> startswith w ''#'' \<and> \<not> startswith w ''[due:'') (split_ws line) = N"
  shows "import_txt_line raw_line = Some (strip (join '' '' N), T, Some d)"
  using assms by (simp add: import_txt_line_def Let_def)

lemma marker_token:
  assumes "\<forall>c \<in> set d. \<not> isspace c \<and> c \<noteq> CHR '']'' \<and> c \<noteq> CHR ''[''"
  shows "\<forall>c \<in> set (''[due:'' @ d @ replicate k CHR '']''). \<not> isspace c"
proof -
  have "\<forall>c \<in> set ''[due:''. \<not> isspace c" by (simp add: isspace_def)
  moreover have "\<forall>c \<in> set (replicate k CHR '']''). \<not> isspace c" by (simp add: isspace_def)
  moreover have "\<forall>c \<in> set d. \<not> isspace c" using assms by blast
  ultimately show ?thesis unfolding set_append by blast
qed

lemma import_txt_line_marker:
  assumes line: "strip raw_line = p @ ''[due:'' @ d @ replicate k CHR '']''"
    and p: "p = [] \<or> isspace (last p)"
    and np: "\<not> contains ''[due:'' p"
    and d: "\<forall>c \<in> set d. \<not> isspace c \<and> c \<noteq> CHR '']'' \<and> c \<noteq> CHR ''[''"
  shows "\<exists>n. parse_note (strip raw_line) = Inr n \<and>
           import_txt_line raw_line = Some (note n, tags n, due_date n)"
proof -
  define a where "a = d @ replicate k CHR '']''"
  define M where "M = ''[due:'' @ a"
  define line where "line = p @ M"
  have l: "strip raw_line = line" using line by (simp add: line_def M_def a_def)
  have "CHR ''['' \<notin> set d" using d by blast
  then have nb: "CHR ''['' \<notin> set a" by (simp add: a_def)
  then have nd: "\<not> contains ''[due:'' a" by (rule no_bracket_no_due)
  have M_ne: "M \<noteq> []" by (simp add: M_def)
  have M_tok: "\<forall>c \<in> set M. \<not> isspace c"
    unfolding M_def a_def using d by (rule marker_token)
  have ws: "split_ws line = split_ws p @ [M]"
    unfolding line_def using p M_ne M_tok by (rule split_ws_last_token)
  have m1: "startswith M ''[due:''" by (simp add: M_def startswith_def)
  have m2: "\<not> startswith M ''#''" by (simp add: M_def startswith_def)
  have tags_eq: "filter (\<lambda>word. startswith word ''#'') (split_ws line) =
      filter (\<lambda>word. startswith word ''#'') (split_ws p)"
    unfolding ws using m2 by simp
  have "filter (\<lambda>w. \<not> startswith w ''#'' \<and> \<not> startswith w ''[due:'') (split_ws line) =
      filter (\<lambda>w. \<not> startswith w ''#'' \<and> \<not> startswith w ''[due:'') (split_ws p)"
    unfolding ws using m1 by simp
  then have note_eq:
    "filter (\<lambda>w. \<not> startswith w ''#'' \<and> \<not> startswith w ''[due:'') (split_ws line) =
      filter (\<lambda>word. \<not> startswith word ''#'') (split_ws p)"
    using filter_not_due [OF np] by (rule trans)
  have c: "contains ''[due:'' line"
    unfolding line_def M_def by (rule contains_append)
  have "split_sep_aux ''[due:'' [] (p @ ''[due:'' @ a) =
      ([] @ p) # split_sep_aux ''[due:'' [] a"
    using np by (rule split_due_first)
  moreover have "split_sep_aux ''[due:'' [] a = [a]"
    using split_sep_aux_none [OF nd, of "[]"] by simp
  ultimately have s1: "split_sep_aux ''[due:'' [] line = [p, a]"
    unfolding line_def M_def by simp
  have "CHR '']'' \<notin> set d" using d by blast
  then obtain rest where s2: "split_sep_aux '']'' [] a = d # rest"
    unfolding a_def using split_bracket_first by blast
  have ne: "line \<noteq> []" using M_ne by (simp add: line_def)
  have imp: "import_txt_line raw_line =
      Some (strip (join '' '' (filter (\<lambda>word. \<not> startswith word ''#'') (split_ws p))),
            filter (\<lambda>word. startswith word ''#'') (split_ws p), Some d)"
    using l ne c import_due_value [OF s1 s2] tags_eq note_eq by (rule import_txt_line_value)
  have "rfind_split ''[due:'' (p @ ''[due:'' @ a) = Some (p, a)"
    using nd by (rule rfind_split_due)
  then have "parse_note (p @ ''[due:'' @ a) = Inr
     \<lparr>note = strip (join '' '' (filter (\<lambda>word. \<not> startswith word ''#'') (split_ws (strip p)))),
      tags = filter (\<lambda>word. startswith word ''#'') (split_ws (strip p)),
      due_date = Some (strip (rstrip_chars a '']''))\<rparr>"
    by (rule parse_note_marker)
  moreover have "strip (rstrip_chars a '']'') = d"
    unfolding a_def using d by (rule due_chunk_clean)
  ultimately have "parse_note line = Inr
     \<lparr>note = strip (join '' '' (filter (\<lambda>word. \<not> startswith word ''#'') (split_ws p))),
      tags = filter (\<lambda>word. startswith word ''#'') (split_ws p),
      due_date = Some d\<rparr>"
    unfolding line_def M_def by (simp only: split_ws_strip)
  with imp l show ?thesis by simp
qed


lemma import_txt_line_blank: "strip raw_line = [] \<Longrightarrow> import_txt_line raw_line = None"
  by (simp add: import_txt_line_def)

text \<open>
  Claim C2, as amended. \<open>import_txt_to_db\<close> strips each line and skips it if nothing is
  left. For a stripped line without \<open>[due:\<close>, and for a stripped line that ends in one
  marker token \<open>[due:d\<close> followed by any number of \<open>]\<close>, where \<open>d\<close> has no whitespace, no
  \<open>]\<close> and no \<open>[\<close>, and the text before the token has no \<open>[due:\<close> and is empty or ends in
  whitespace, the body, the tags and the due date that are passed to \<open>add_note_to_db\<close>
  are those that \<open>parse_note\<close> returns for the stripped line.
\<close>

theorem import_txt_line_parse_note:
  "(strip raw_line = [] \<longrightarrow> import_txt_line raw_line = None) \<and>
   (strip raw_line \<noteq> [] \<and> \<not> contains ''[due:'' (strip raw_line) \<longrightarrow>
      (\<exists>n. parse_note (strip raw_line) = Inr n \<and>
           import_txt_line raw_line = Some (note n, tags n, due_date n))) \<and>
   (strip raw_line = p @ ''[due:'' @ d @ replicate k CHR '']'' \<and>
    (p = [] \<or> isspace (last p)) \<and> \<not> contains ''[due:'' p \<and>
    (\<forall>c \<in> set d. \<not> isspace c \<and> c \<noteq> CHR '']'' \<and> c \<noteq> CHR ''['') \<longrightarrow>
      (\<exists>n. parse_note (strip raw_line) = Inr n \<and>
           import_txt_line raw_line = Some (note n, tags n, due_date n)))"
proof (intro conjI impI)
  assume "strip raw_line = []"
  then show "import_txt_line raw_line = None" by (rule import_txt_line_blank)
next
  assume "strip raw_line \<noteq> [] \<and> \<not> contains ''[due:'' (strip raw_line)"
  then show "\<exists>n. parse_note (strip raw_line) = Inr n \<and>
           import_txt_line raw_line = Some (note n, tags n, due_date n)"
    using import_txt_line_no_marker by blast
next
  assume a: "strip raw_line = p @ ''[due:'' @ d @ replicate k CHR '']'' \<and>
    (p = [] \<or> isspace (last p)) \<and> \<not> contains ''[due:'' p \<and>
    (\<forall>c \<in> set d. \<not> isspace c \<and> c \<noteq> CHR '']'' \<and> c \<noteq> CHR ''['')"
  show "\<exists>n. parse_note (strip raw_line) = Inr n \<and>
           import_txt_line raw_line = Some (note n, tags n, due_date n)"
  proof (rule import_txt_line_marker)
    show "strip raw_line = p @ ''[due:'' @ d @ replicate k CHR '']''" using a by (rule conjunct1)
    show "p = [] \<or> isspace (last p)" using a by blast
    show "\<not> contains ''[due:'' p" using a by blast
    show "\<forall>c \<in> set d. \<not> isspace c \<and> c \<noteq> CHR '']'' \<and> c \<noteq> CHR ''[''" using a by blast
  qed
qed

text \<open>
  The two kinds of line, as they are read from a file, with the line feed at the end.
\<close>

theorem import_txt_line_parse_note_witness:
  "strip (''Buy milk #grocery #urgent [due:2025-07-25]'' @ [CHR 0x0A]) =
     ''Buy milk #grocery #urgent '' @ ''[due:'' @ ''2025-07-25'' @ replicate (Suc 0) CHR '']'' \<and>
   isspace (last ''Buy milk #grocery #urgent '') \<and>
   \<not> contains ''[due:'' ''Buy milk #grocery #urgent '' \<and>
   (\<exists>n. parse_note (strip (''Buy milk #grocery #urgent [due:2025-07-25]'' @ [CHR 0x0A])) = Inr n \<and>
      import_txt_line (''Buy milk #grocery #urgent [due:2025-07-25]'' @ [CHR 0x0A]) =
        Some (note n, tags n, due_date n)) \<and>
   strip (''Read a #good book'' @ [CHR 0x0A]) \<noteq> [] \<and>
   \<not> contains ''[due:'' (strip (''Read a #good book'' @ [CHR 0x0A])) \<and>
   (\<exists>n. parse_note (strip (''Read a #good book'' @ [CHR 0x0A])) = Inr n \<and>
      import_txt_line (''Read a #good book'' @ [CHR 0x0A]) = Some (note n, tags n, due_date n))"
proof -
  have l: "strip (''Buy milk #grocery #urgent [due:2025-07-25]'' @ [CHR 0x0A]) =
     ''Buy milk #grocery #urgent '' @ ''[due:'' @ ''2025-07-25'' @ replicate (Suc 0) CHR '']''"
    by code_simp
  have p: "isspace (last ''Buy milk #grocery #urgent '')" by code_simp
  have np: "\<not> contains ''[due:'' ''Buy milk #grocery #urgent ''" by code_simp
  have d: "\<forall>c \<in> set ''2025-07-25''. \<not> isspace c \<and> c \<noteq> CHR '']'' \<and> c \<noteq> CHR ''[''"
    by (simp add: isspace_def)
  have r: "strip (''Read a #good book'' @ [CHR 0x0A]) \<noteq> []" by code_simp
  have nr: "\<not> contains ''[due:'' (strip (''Read a #good book'' @ [CHR 0x0A]))" by code_simp
  have pd: "''Buy milk #grocery #urgent '' = [] \<or> isspace (last ''Buy milk #grocery #urgent '')"
    using p by (rule disjI2)
  have h1: "strip (''Buy milk #grocery #urgent [due:2025-07-25]'' @ [CHR 0x0A]) =
      ''Buy milk #grocery #urgent '' @ ''[due:'' @ ''2025-07-25'' @ replicate (Suc 0) CHR '']'' \<and>
    (''Buy milk #grocery #urgent '' = [] \<or> isspace (last ''Buy milk #grocery #urgent '')) \<and>
    \<not> contains ''[due:'' ''Buy milk #grocery #urgent '' \<and>
    (\<forall>c \<in> set ''2025-07-25''. \<not> isspace c \<and> c \<noteq> CHR '']'' \<and> c \<noteq> CHR ''['')"
    using l pd np d by (intro conjI)
  have e1: "\<exists>n. parse_note (strip (''Buy milk #grocery #urgent [due:2025-07-25]'' @ [CHR 0x0A])) = Inr n \<and>
      import_txt_line (''Buy milk #grocery #urgent [due:2025-07-25]'' @ [CHR 0x0A]) =
        Some (note n, tags n, due_date n)"
    using import_txt_line_parse_note [of "''Buy milk #grocery #urgent [due:2025-07-25]'' @ [CHR 0x0A]"
      "''Buy milk #grocery #urgent ''" "''2025-07-25''" "Suc 0", THEN conjunct2, THEN conjunct2] h1
    by (rule mp)
  have h2: "strip (''Read a #good book'' @ [CHR 0x0A]) \<noteq> [] \<and>
      \<not> contains ''[due:'' (strip (''Read a #good book'' @ [CHR 0x0A]))"
    using r nr by (intro conjI)
  have e2: "\<exists>n. parse_note (strip (''Read a #good book'' @ [CHR 0x0A])) = Inr n \<and>
      import_txt_line (''Read a #good book'' @ [CHR 0x0A]) = Some (note n, tags n, due_date n)"
    using import_txt_line_parse_note [of "''Read a #good book'' @ [CHR 0x0A]",
      THEN conjunct2, THEN conjunct1] h2
    by (rule mp)
  show ?thesis using l p np e1 r nr e2 by (intro conjI)
qed

text \<open>
  Claim C2 as the specification states it fails for the line \<open>a [due:x] #t\<close>: the import
  takes its tags from the whole line and its due date up to the first \<open>]\<close>, \<open>parse_note\<close>
  takes the tags before the marker and the due date from all the text after it. It also
  fails for the line \<open>a [due:x]\<close> as it is read, with its line feed, if that line is parsed
  without being stripped first.
\<close>

theorem import_txt_line_parse_note_counterexample:
  "strip ''a [due:x] #t'' = ''a [due:x] #t'' \<and>
   import_txt_line ''a [due:x] #t'' = Some (''a'', [''#t''], Some ''x'') \<and>
   parse_note ''a [due:x] #t'' = Inr \<lparr>note = ''a'', tags = [], due_date = Some ''x] #t''\<rparr> \<and>
   import_txt_line (''a [due:x]'' @ [CHR 0x0A]) = Some (''a'', [], Some ''x'') \<and>
   parse_note (''a [due:x]'' @ [CHR 0x0A]) = Inr \<lparr>note = ''a'', tags = [], due_date = Some ''x]''\<rparr>"
  by code_simp

end
